theory Spec2Isabelle
  imports Main
begin

section \<open>The board (pkg/model/board.go)\<close>

text \<open>
  Go's \<open>int\<close> is taken as the 64-bit signed integer. Coordinates are always tested by
  \<open>IsValidPosition\<close> before they are stepped, so on a board of size 8 they stay within
  \<open>-2..9\<close> and are written as plain integers; the counters that the code increments
  without any guard (\<open>BlackCnt\<close>, \<open>WhiteCnt\<close>, \<open>PassCount\<close>, the parsed row, the search
  depth) wrap around through \<open>go_int\<close>.
\<close>

definition go_int :: "int \<Rightarrow> int" where
  "go_int x = (x + 2 ^ 63) mod 2 ^ 64 - 2 ^ 63"

datatype Piece = Empty | Black | White

text \<open>\<open>Direction\<close> and \<open>Position\<close> are two-field structs of ints: pairs (row, column).\<close>

type_synonym Direction = "int \<times> int"
type_synonym Position = "int \<times> int"

definition Directions :: "Direction list" where
  "Directions = [(-1, -1), (-1, 0), (-1, 1), (0, -1), (0, 1), (1, -1), (1, 0), (1, 1)]"

record board =
  Cells :: "Piece list list"
  CurrentPlayer :: Piece
  Size :: int
  BlackCnt :: int
  WhiteCnt :: int

definition NewBoard :: board where
  "NewBoard =
     \<lparr>Cells = (replicate 8 (replicate 8 Empty))
        [3 := (replicate 8 Empty)[3 := White, 4 := Black],
         4 := (replicate 8 Empty)[3 := Black, 4 := White]],
      CurrentPlayer = Black, Size = 8, BlackCnt = 2, WhiteCnt = 2\<rparr>"

definition IsValidPosition :: "board \<Rightarrow> int \<Rightarrow> int \<Rightarrow> bool" where
  "IsValidPosition b row col \<longleftrightarrow> row \<ge> 0 \<and> row < Size b \<and> col \<ge> 0 \<and> col < Size b"

text \<open>\<open>b.Cells[row][col]\<close>; the code reads it only after \<open>IsValidPosition\<close>.\<close>

definition cell :: "board \<Rightarrow> int \<Rightarrow> int \<Rightarrow> Piece" where
  "cell b row col = Cells b ! nat row ! nat col"

definition GetPiece :: "board \<Rightarrow> int \<Rightarrow> int \<Rightarrow> Piece" where
  "GetPiece b row col = (if \<not> IsValidPosition b row col then Empty else cell b row col)"

definition getOpponent :: "board \<Rightarrow> Piece" where
  "getOpponent b = (if CurrentPlayer b = Black then White else Black)"

text \<open>
  A board as \<open>NewBoard\<close> and \<open>Clone\<close> build it: size 8, eight rows of eight cells. On such
  a board no index of the code is out of range.
\<close>

definition wf_board :: "board \<Rightarrow> bool" where
  "wf_board b \<longleftrightarrow> Size b = 8 \<and> length (Cells b) = 8 \<and> list_all (\<lambda>row. length row = 8) (Cells b)"

text \<open>
  The inner loop of \<open>IsValidMove\<close>: walk from (r, c) in direction \<open>dir\<close> while on the
  board. The loop is only ever run with a member of \<open>Directions\<close>; on the zero direction,
  which \<open>Directions\<close> does not contain, it would spin, and the model stops there.
\<close>

function scanOwn :: "board \<Rightarrow> Direction \<Rightarrow> int \<Rightarrow> int \<Rightarrow> bool" where
  "scanOwn b dir r c =
     (if IsValidPosition b r c \<and> dir \<noteq> (0, 0) then
        if cell b r c = CurrentPlayer b then True
        else if cell b r c = Empty then False
        else scanOwn b dir (r + fst dir) (c + snd dir)
      else False)"
  by pat_completeness auto
termination
  by (relation "measure (\<lambda>(b, dir, r, c).
        if fst dir > 0 then nat (Size b - r)
        else if fst dir < 0 then nat (r + 1)
        else if snd dir > 0 then nat (Size b - c)
        else nat (c + 1))")
     (auto simp: IsValidPosition_def)

declare scanOwn.simps [simp del]

fun validDirs :: "board \<Rightarrow> int \<Rightarrow> int \<Rightarrow> Direction list \<Rightarrow> bool" where
  "validDirs b row col [] = False"
| "validDirs b row col (dir # dirs) =
     (let r = row + fst dir; c = col + snd dir in
      if \<not> IsValidPosition b r c \<or> cell b r c \<noteq> getOpponent b then validDirs b row col dirs
      else if scanOwn b dir (r + fst dir) (c + snd dir) then True
      else validDirs b row col dirs)"

definition IsValidMove :: "board \<Rightarrow> int \<Rightarrow> int \<Rightarrow> bool" where
  "IsValidMove b row col =
     (if \<not> IsValidPosition b row col \<or> cell b row col \<noteq> Empty then False
      else validDirs b row col Directions)"

definition GetValidMoves :: "board \<Rightarrow> Position list" where
  "GetValidMoves b =
     [(i, j). i \<leftarrow> [0..Size b - 1], j \<leftarrow> [0..Size b - 1], IsValidMove b i j]"

definition HasValidMove :: "board \<Rightarrow> bool" where
  "HasValidMove b \<longleftrightarrow> length (GetValidMoves b) > 0"

text \<open>\<open>b.Cells[row][col] = p\<close>\<close>

definition setCell :: "board \<Rightarrow> int \<Rightarrow> int \<Rightarrow> Piece \<Rightarrow> board" where
  "setCell b row col p = b\<lparr>Cells := (Cells b)[nat row := (Cells b ! nat row)[nat col := p]]\<rparr>"

text \<open>
  The inner loop of \<open>flipPieces\<close>: returns \<open>toFlip\<close> and \<open>foundOwn\<close>. As in \<open>scanOwn\<close>,
  the zero direction is where the loop would spin and the model stops.
\<close>

function collectFlips ::
  "board \<Rightarrow> Direction \<Rightarrow> int \<Rightarrow> int \<Rightarrow> Position list \<Rightarrow> Position list \<times> bool" where
  "collectFlips b dir r c toFlip =
     (if IsValidPosition b r c \<and> dir \<noteq> (0, 0) then
        if cell b r c = Empty then (toFlip, False)
        else if cell b r c = CurrentPlayer b then (toFlip, True)
        else collectFlips b dir (r + fst dir) (c + snd dir) (toFlip @ [(r, c)])
      else (toFlip, False))"
  by pat_completeness auto
termination
  by (relation "measure (\<lambda>(b, dir, r, c, toFlip).
        if fst dir > 0 then nat (Size b - r)
        else if fst dir < 0 then nat (r + 1)
        else if snd dir > 0 then nat (Size b - c)
        else nat (c + 1))")
     (auto simp: IsValidPosition_def)

declare collectFlips.simps [simp del]

text \<open>\<open>for _, pos := range toFlip { b.Cells[pos.Row][pos.Col] = b.CurrentPlayer; flipped++ }\<close>\<close>

fun flipList :: "board \<Rightarrow> Position list \<Rightarrow> int \<Rightarrow> board \<times> int" where
  "flipList b [] flipped = (b, flipped)"
| "flipList b (pos # toFlip) flipped =
     flipList (setCell b (fst pos) (snd pos) (CurrentPlayer b)) toFlip (flipped + 1)"

fun flipDirs :: "board \<Rightarrow> int \<Rightarrow> int \<Rightarrow> Direction list \<Rightarrow> int \<Rightarrow> board \<times> int" where
  "flipDirs b row col [] flipped = (b, flipped)"
| "flipDirs b row col (dir # dirs) flipped =
     (let r = row + fst dir; c = col + snd dir in
      if \<not> IsValidPosition b r c \<or> cell b r c \<noteq> getOpponent b then flipDirs b row col dirs flipped
      else
        (case collectFlips b dir (r + fst dir) (c + snd dir) [(r, c)] of
           (toFlip, foundOwn) \<Rightarrow>
             if foundOwn then
               (case flipList b toFlip flipped of
                  (b', flipped') \<Rightarrow> flipDirs b' row col dirs flipped')
             else flipDirs b row col dirs flipped))"

definition flipPieces :: "board \<Rightarrow> int \<Rightarrow> int \<Rightarrow> board" where
  "flipPieces b row col =
     (case flipDirs b row col Directions 0 of
        (b', flipped) \<Rightarrow>
          if CurrentPlayer b' = Black then
            b'\<lparr>BlackCnt := go_int (BlackCnt b' + (flipped + 1)),
               WhiteCnt := go_int (WhiteCnt b' - flipped)\<rparr>
          else
            b'\<lparr>WhiteCnt := go_int (WhiteCnt b' + (flipped + 1)),
               BlackCnt := go_int (BlackCnt b' - flipped)\<rparr>)"

text \<open>\<open>MakeMove\<close> returns its boolean result and the board as the call leaves it.\<close>

definition MakeMove :: "board \<Rightarrow> int \<Rightarrow> int \<Rightarrow> bool \<times> board" where
  "MakeMove b row col =
     (if \<not> IsValidMove b row col then (False, b)
      else
        let b1 = setCell b row col (CurrentPlayer b);
            b2 = flipPieces b1 row col
        in (True, b2\<lparr>CurrentPlayer := getOpponent b2\<rparr>))"

text \<open>
  \<open>IsGameOver\<close> writes \<open>CurrentPlayer\<close> and writes the saved value back; the early return
  leaves the board as it was.
\<close>

definition IsGameOver :: "board \<Rightarrow> bool \<times> board" where
  "IsGameOver b =
     (let current = CurrentPlayer b; hasMove = HasValidMove b in
      if hasMove then (False, b)
      else
        let b1 = b\<lparr>CurrentPlayer := getOpponent b\<rparr>;
            opponentHasMove = HasValidMove b1;
            b2 = b1\<lparr>CurrentPlayer := current\<rparr>
        in (\<not> opponentHasMove, b2))"

definition GetWinner :: "board \<Rightarrow> Piece" where
  "GetWinner b =
     (if BlackCnt b > WhiteCnt b then Black
      else if WhiteCnt b > BlackCnt b then White
      else Empty)"

definition Clone :: "board \<Rightarrow> board" where
  "Clone b =
     \<lparr>Cells = map (\<lambda>i. map (\<lambda>j. Cells b ! i ! j) [0..<nat (Size b)]) [0..<nat (Size b)],
      CurrentPlayer = CurrentPlayer b, Size = Size b,
      BlackCnt = BlackCnt b, WhiteCnt = WhiteCnt b\<rparr>"


section \<open>The game session (pkg/model/game.go)\<close>

record move =
  Position :: Position
  MovePiece :: Piece

record game =
  Board :: board
  History :: "move list"
  GameOver :: bool
  PassCount :: int
  Winner :: Piece

text \<open>The three \<open>errors.New\<close> values of the session, by their messages.\<close>

datatype game_error =
    AlreadyOver   \<comment> \<open>game is already over\<close>
  | InvalidMove   \<comment> \<open>invalid move\<close>
  | CannotPass    \<comment> \<open>cannot pass when valid moves are available\<close>

definition NewGame :: game where
  "NewGame = \<lparr>Board = NewBoard, History = [], GameOver = False, PassCount = 0, Winner = Empty\<rparr>"

definition updateGameState :: "game \<Rightarrow> game" where
  "updateGameState g =
     (case IsGameOver (Board g) of
        (over, b') \<Rightarrow>
          let g1 = g\<lparr>Board := b'\<rparr> in
          if over \<or> PassCount g1 \<ge> 2 then g1\<lparr>GameOver := True, Winner := GetWinner (Board g1)\<rparr>
          else g1)"

text \<open>\<open>Game.MakeMove\<close>; an error leaves the session as it was.\<close>

definition Game_MakeMove :: "game \<Rightarrow> int \<Rightarrow> int \<Rightarrow> game_error + game" where
  "Game_MakeMove g row col =
     (if GameOver g then Inl AlreadyOver
      else
        case MakeMove (Board g) row col of
          (ok, b') \<Rightarrow>
            if \<not> ok then Inl InvalidMove
            else
              let g1 = g\<lparr>Board := b'\<rparr>;
                  g2 = g1\<lparr>History := History g1 @
                         [\<lparr>Position = (row, col), MovePiece = CurrentPlayer (Board g1)\<rparr>]\<rparr>;
                  g3 = g2\<lparr>PassCount := 0\<rparr>
              in Inr (updateGameState g3))"

definition Pass :: "game \<Rightarrow> game_error + game" where
  "Pass g =
     (if GameOver g then Inl AlreadyOver
      else if HasValidMove (Board g) then Inl CannotPass
      else
        let g1 = g\<lparr>History := History g @
                     [\<lparr>Position = (-1, -1), MovePiece = CurrentPlayer (Board g)\<rparr>]\<rparr>;
            g2 = g1\<lparr>PassCount := go_int (PassCount g1 + 1)\<rparr>;
            g3 = g2\<lparr>Board := (Board g2)\<lparr>CurrentPlayer := getOpponent (Board g2)\<rparr>\<rparr>
        in Inr (updateGameState g3))"

subsection \<open>Move notation\<close>

text \<open>
  \<open>fmt.Sscanf(s, "%d", &row)\<close> belongs to Go's standard library. Its behaviour on the
  verb \<open>%d\<close>, as the package documents and implements it: leading space is skipped (a
  newline is an error there), one optional sign is taken, then the longest run of
  decimal digits, which must not be empty; the token is converted by
  \<open>strconv.ParseInt\<close> to 64 bits, and a value out of that range is an error. Whatever
  follows the digits is left unread. On any error nothing is stored: that is \<open>None\<close>.
  Strings are byte sequences; the scanner reads UTF-8, so the spaces of more than one
  byte are listed by their encodings.
\<close>

fun skipSpace :: "nat list \<Rightarrow> nat list option" where
  "skipSpace [] = Some []"
| "skipSpace (x # xs) =
     (if x = 10 then None
      else if x = 9 \<or> x = 11 \<or> x = 12 \<or> x = 13 \<or> x = 32 then skipSpace xs
      else
        (case xs of
           y # ys \<Rightarrow>
             if x = 194 \<and> (y = 133 \<or> y = 160) then skipSpace ys
             else
               (case ys of
                  z # zs \<Rightarrow>
                    if (x = 225 \<and> y = 154 \<and> z = 128)
                       \<or> (x = 226 \<and> y = 128 \<and> (128 \<le> z \<and> z \<le> 138 \<or> z = 168 \<or> z = 169 \<or> z = 175))
                       \<or> (x = 226 \<and> y = 129 \<and> z = 159)
                       \<or> (x = 227 \<and> y = 128 \<and> z = 128)
                    then skipSpace zs
                    else Some (x # xs)
                | [] \<Rightarrow> Some (x # xs))
         | [] \<Rightarrow> Some (x # xs)))"

definition Sscanf_d :: "string \<Rightarrow> int option" where
  "Sscanf_d s =
     (case skipSpace (map of_char s) of
        None \<Rightarrow> None
      | Some bs \<Rightarrow>
          (case bs of
             [] \<Rightarrow> None
           | x # xs \<Rightarrow>
               let neg = (x = 45);
                   rest = (if x = 43 \<or> x = 45 then xs else bs);
                   ds = takeWhile (\<lambda>n. 48 \<le> n \<and> n \<le> 57) rest;
                   v = foldl (\<lambda>n d. 10 * n + (int d - 48)) 0 ds;
                   i = (if neg then - v else v)
               in if ds = [] then None
                  else if i < - (2 ^ 63) \<or> i \<ge> 2 ^ 63 then None
                  else Some i))"

datatype parse_error =
    InvalidMoveFormat   \<comment> \<open>invalid move format\<close>
  | InvalidColumn       \<comment> \<open>invalid column\<close>
  | OutOfBounds         \<comment> \<open>position out of bounds\<close>

definition ParseMove :: "string \<Rightarrow> parse_error + Position" where
  "ParseMove mv =
     (if length mv < 2 then Inl InvalidMoveFormat
      else if mv = ''pass'' \<or> mv = ''Pass'' \<or> mv = ''PASS'' then Inr (-1, -1)
      else
        let col = int (of_char (hd mv)) in
        if \<not> (col \<ge> 97 \<and> col \<le> 104) \<and> \<not> (col \<ge> 65 \<and> col \<le> 72) then Inl InvalidColumn
        else
          let col = (if col \<ge> 97 \<and> col \<le> 104 then col - 97 else col - 65);
              row = (case Sscanf_d (tl mv) of None \<Rightarrow> -1 | Some v \<Rightarrow> v);
              row = go_int (row - 1)
          in if row < 0 \<or> row \<ge> 8 \<or> col < 0 \<or> col \<ge> 8 then Inl OutOfBounds
             else Inr (row, col))"


section \<open>The computer player (pkg/ai/player.go)\<close>

record player =
  Difficulty :: string
  Piece :: Piece

definition Easy :: string where "Easy = ''easy''"
definition Medium :: string where "Medium = ''medium''"
definition Hard :: string where "Hard = ''hard''"

definition MinInt32 :: int where "MinInt32 = - 2147483648"
definition MaxInt32 :: int where "MaxInt32 = 2147483647"

definition weights :: "int list list" where
  "weights =
    [[100, -20, 10, 5, 5, 10, -20, 100],
     [-20, -50, -2, -2, -2, -2, -50, -20],
     [10, -2, -1, -1, -1, -1, -2, 10],
     [5, -2, -1, -1, -1, -1, -2, 5],
     [5, -2, -1, -1, -1, -1, -2, 5],
     [10, -2, -1, -1, -1, -1, -2, 10],
     [-20, -50, -2, -2, -2, -2, -50, -20],
     [100, -20, 10, 5, 5, 10, -20, 100]]"

text \<open>
  The two loops of \<open>evaluatePosition\<close> over \<open>i, j = 0..7\<close>. The score is a sum of at most
  64 table entries, far inside the 64-bit range.
\<close>

definition evaluatePosition :: "player \<Rightarrow> board \<Rightarrow> int" where
  "evaluatePosition p b =
     fold (\<lambda>i score.
       fold (\<lambda>j score.
         let piece = GetPiece b i j in
         if piece = Piece p then score + weights ! nat i ! nat j
         else if piece \<noteq> Empty then score - weights ! nat i ! nat j
         else score) [0..7] score) [0..7] 0"

text \<open>
  The two move loops of \<open>minimax\<close>, with the recursive call as the parameter \<open>rec\<close>; the
  \<open>break\<close> on \<open>beta <= alpha\<close> returns the running score.
\<close>

fun maxLoop ::
  "(Position \<Rightarrow> int \<Rightarrow> int \<Rightarrow> int option) \<Rightarrow> Position list \<Rightarrow> int \<Rightarrow> int \<Rightarrow> int \<Rightarrow> int option" where
  "maxLoop rec [] maxScore alpha beta = Some maxScore"
| "maxLoop rec (mv # moves) maxScore alpha beta =
     Option.bind (rec mv alpha beta) (\<lambda>score.
       let maxScore = max maxScore score; alpha = max alpha score in
       if beta \<le> alpha then Some maxScore else maxLoop rec moves maxScore alpha beta)"

fun minLoop ::
  "(Position \<Rightarrow> int \<Rightarrow> int \<Rightarrow> int option) \<Rightarrow> Position list \<Rightarrow> int \<Rightarrow> int \<Rightarrow> int \<Rightarrow> int option" where
  "minLoop rec [] minScore alpha beta = Some minScore"
| "minLoop rec (mv # moves) minScore alpha beta =
     Option.bind (rec mv alpha beta) (\<lambda>score.
       let minScore = min minScore score; beta = min beta score in
       if beta \<le> alpha then Some minScore else minLoop rec moves minScore alpha beta)"

lemma maxLoop_mono [partial_function_mono]:
  assumes "\<And>mv a b. mono_option (\<lambda>f. F f mv a b)"
  shows "mono_option (\<lambda>f. maxLoop (F f) moves ms alpha beta)"
proof (induction moves arbitrary: ms alpha beta)
  case Nil
  show ?case by (simp add: option.const_mono)
next
  case (Cons mv moves)
  show ?case
    unfolding maxLoop.simps Let_def
    by (intro bind_mono assms if_mono option.const_mono Cons.IH)
qed

lemma minLoop_mono [partial_function_mono]:
  assumes "\<And>mv a b. mono_option (\<lambda>f. F f mv a b)"
  shows "mono_option (\<lambda>f. minLoop (F f) moves ms alpha beta)"
proof (induction moves arbitrary: ms alpha beta)
  case Nil
  show ?case by (simp add: option.const_mono)
next
  case (Cons mv moves)
  show ?case
    unfolding minLoop.simps Let_def
    by (intro bind_mono assms if_mono option.const_mono Cons.IH)
qed

text \<open>
  \<open>minimax\<close> recurses on \<open>depth - 1\<close> and stops only at \<open>depth == 0\<close>, at a finished game
  or at a board without moves: a result is \<open>Some\<close>, not returning is \<open>None\<close>. The board
  is passed on as \<open>IsGameOver\<close> leaves it.
\<close>

partial_function (option) minimax ::
  "player \<Rightarrow> board \<Rightarrow> int \<Rightarrow> int \<Rightarrow> int \<Rightarrow> bool \<Rightarrow> int option" where
  "minimax p board depth alpha beta maximizing =
     (if depth = 0 then Some (evaluatePosition p board)
      else
        case IsGameOver board of
          (over, board) \<Rightarrow>
            if over then Some (evaluatePosition p board)
            else
              let moves = GetValidMoves board in
              if length moves = 0 then Some (evaluatePosition p board)
              else if maximizing then
                maxLoop (\<lambda>mv alpha beta.
                    minimax p (snd (MakeMove (Clone board) (fst mv) (snd mv)))
                      (go_int (depth - 1)) alpha beta False)
                  moves MinInt32 alpha beta
              else
                minLoop (\<lambda>mv alpha beta.
                    minimax p (snd (MakeMove (Clone board) (fst mv) (snd mv)))
                      (go_int (depth - 1)) alpha beta True)
                  moves MaxInt32 alpha beta)"

declare minimax.simps [code]

text \<open>
  The result of a move selection is the triple (row, column, error) with \<open>None\<close> for the
  \<open>nil\<close> error. \<open>rand.Intn(n)\<close> is the parameter \<open>intn\<close>: the number the generator hands out
  for \<open>n\<close>, which Go promises to be in \<open>[0, n)\<close>.
\<close>

type_synonym move_result = "int \<times> int \<times> string option"

definition getRandomMove :: "player \<Rightarrow> board \<Rightarrow> (nat \<Rightarrow> nat) \<Rightarrow> move_result" where
  "getRandomMove p board intn =
     (let moves = GetValidMoves board in
      if length moves = 0 then (-1, -1, None)
      else
        let mv = moves ! intn (length moves) in (fst mv, snd mv, None))"

fun mediumLoop :: "player \<Rightarrow> board \<Rightarrow> Position list \<Rightarrow> int \<Rightarrow> Position \<Rightarrow> Position" where
  "mediumLoop p board [] bestScore bestMove = bestMove"
| "mediumLoop p board (mv # moves) bestScore bestMove =
     (let boardCopy = snd (MakeMove (Clone board) (fst mv) (snd mv));
          score = evaluatePosition p boardCopy
      in if score > bestScore then mediumLoop p board moves score mv
         else mediumLoop p board moves bestScore bestMove)"

definition getMediumMove :: "player \<Rightarrow> board \<Rightarrow> move_result" where
  "getMediumMove p board =
     (let moves = GetValidMoves board in
      if length moves = 0 then (-1, -1, None)
      else
        let bestMove = mediumLoop p board moves MinInt32 (0, 0) in
        (fst bestMove, snd bestMove, None))"

fun hardLoop :: "player \<Rightarrow> board \<Rightarrow> Position list \<Rightarrow> int \<Rightarrow> Position \<Rightarrow> Position option" where
  "hardLoop p board [] bestScore bestMove = Some bestMove"
| "hardLoop p board (mv # moves) bestScore bestMove =
     (let boardCopy = snd (MakeMove (Clone board) (fst mv) (snd mv)) in
      case minimax p boardCopy 4 MinInt32 MaxInt32 False of
        None \<Rightarrow> None
      | Some score \<Rightarrow>
          if score > bestScore then hardLoop p board moves score mv
          else hardLoop p board moves bestScore bestMove)"

definition getHardMove :: "player \<Rightarrow> board \<Rightarrow> move_result option" where
  "getHardMove p board =
     (let moves = GetValidMoves board in
      if length moves = 0 then Some (-1, -1, None)
      else
        case hardLoop p board moves MinInt32 (0, 0) of
          None \<Rightarrow> None
        | Some bestMove \<Rightarrow> Some (fst bestMove, snd bestMove, None))"

text \<open>\<open>GetMove\<close>: \<open>Some\<close> of the triple it returns; \<open>None\<close> only if the search did not return.\<close>

definition GetMove :: "player \<Rightarrow> board \<Rightarrow> (nat \<Rightarrow> nat) \<Rightarrow> move_result option" where
  "GetMove p board intn =
     (if Difficulty p = Easy then Some (getRandomMove p board intn)
      else if Difficulty p = Medium then Some (getMediumMove p board)
      else if Difficulty p = Hard then getHardMove p board
      else Some (getRandomMove p board intn))"


section \<open>Notions of the specification\<close>

text \<open>
  The evaluator as the specification words it: an occupied cell contributes its table
  entry, positively when it belongs to the scored piece and negatively otherwise; an
  empty cell contributes nothing.
\<close>

definition contribution :: "Piece \<Rightarrow> Piece \<Rightarrow> int \<Rightarrow> int" where
  "contribution forPiece piece w =
     (if piece = Empty then 0 else if piece = forPiece then w else - w)"

definition positional_score :: "Piece \<Rightarrow> board \<Rightarrow> int" where
  "positional_score forPiece b =
     (\<Sum>i\<leftarrow>[0..7]. \<Sum>j\<leftarrow>[0..7]. contribution forPiece (GetPiece b i j) (weights ! nat i ! nat j))"

text \<open>
  The words of the move notation: a column letter (A-H or a-h, by character code) and
  its index, a decimal digit and the number a run of digits denotes, the row index that
  \<open>ParseMove\<close> compares with the board, the three spellings of the pass token that the
  code lists, and lower-casing of ASCII letters.
\<close>

definition is_column_letter :: "char \<Rightarrow> bool" where
  "is_column_letter ch \<longleftrightarrow>
     65 \<le> (of_char ch :: nat) \<and> (of_char ch :: nat) \<le> 72
     \<or> 97 \<le> (of_char ch :: nat) \<and> (of_char ch :: nat) \<le> 104"

definition column_index :: "char \<Rightarrow> int" where
  "column_index ch =
     (if 97 \<le> (of_char ch :: nat) then int (of_char ch) - 97 else int (of_char ch) - 65)"

definition is_digit :: "char \<Rightarrow> bool" where
  "is_digit ch \<longleftrightarrow> 48 \<le> (of_char ch :: nat) \<and> (of_char ch :: nat) \<le> 57"

definition digits_value :: "string \<Rightarrow> int" where
  "digits_value ds = foldl (\<lambda>n ch. 10 * n + (int (of_char ch) - 48)) 0 ds"

definition parsed_row :: "string \<Rightarrow> int" where
  "parsed_row mv = go_int ((case Sscanf_d (tl mv) of None \<Rightarrow> -1 | Some v \<Rightarrow> v) - 1)"

definition to_lower :: "char \<Rightarrow> char" where
  "to_lower ch =
     (if 65 \<le> (of_char ch :: nat) \<and> (of_char ch :: nat) \<le> 90 then char_of ((of_char ch :: nat) + 32)
      else ch)"

definition pass_spellings :: "string set" where
  "pass_spellings = {''pass'', ''Pass'', ''PASS''}"

text \<open>
  Bracketing, as the specification words a legal move: in direction \<open>dir\<close> the \<open>n \<ge> 1\<close>
  cells next to (row, col) are on the board and hold the opponent, and the cell after
  them is on the board and holds the current player.
\<close>

definition brackets :: "board \<Rightarrow> int \<Rightarrow> int \<Rightarrow> Direction \<Rightarrow> bool" where
  "brackets b row col dir \<longleftrightarrow>
     (\<exists>n::nat. 1 \<le> n
        \<and> (\<forall>k::nat. 1 \<le> k \<and> k \<le> n \<longrightarrow>
              IsValidPosition b (row + int k * fst dir) (col + int k * snd dir)
              \<and> cell b (row + int k * fst dir) (col + int k * snd dir) = getOpponent b)
        \<and> IsValidPosition b (row + int (n + 1) * fst dir) (col + int (n + 1) * snd dir)
        \<and> cell b (row + int (n + 1) * fst dir) (col + int (n + 1) * snd dir) = CurrentPlayer b)"

text \<open>
  A run seen from a cell (r, c) on the ray: \<open>m\<close> opponent cells starting at (r, c), then a
  cell of the current player.
\<close>

definition run_to_own :: "board \<Rightarrow> Direction \<Rightarrow> int \<Rightarrow> int \<Rightarrow> nat \<Rightarrow> bool" where
  "run_to_own b dir r c m \<longleftrightarrow>
     (\<forall>k<m. IsValidPosition b (r + int k * fst dir) (c + int k * snd dir)
           \<and> cell b (r + int k * fst dir) (c + int k * snd dir) = getOpponent b)
     \<and> IsValidPosition b (r + int m * fst dir) (c + int m * snd dir)
     \<and> cell b (r + int m * fst dir) (c + int m * snd dir) = CurrentPlayer b"

text \<open>The number of cells of the grid that hold a given piece, and that hold any piece.\<close>

definition count_cells :: "Piece \<Rightarrow> board \<Rightarrow> int" where
  "count_cells p b = int (length (filter (\<lambda>q. q = p) (concat (Cells b))))"

definition count_occupied :: "board \<Rightarrow> int" where
  "count_occupied b = int (length (filter (\<lambda>q. q \<noteq> Empty) (concat (Cells b))))"

section \<open>What a placed move records in the history\<close>

text \<open>
  C4. A successful \<open>Game.MakeMove\<close> should append a move whose piece is the side that
  acted. \<open>Game.MakeMove\<close> reads \<open>g.Board.CurrentPlayer\<close> after \<open>Board.MakeMove\<close> has
  already handed the turn over, while \<open>Game.Pass\<close> reads it before switching. From the
  opening position Black plays (2, 3), the move succeeds, and the history records White.
\<close>

theorem C4_placed_move_records_next_player:
  "CurrentPlayer (Board NewGame) = Black \<and> \<not> GameOver NewGame \<and>
   map_sum id History (Game_MakeMove NewGame 2 3) =
     Inr [\<lparr>Position = (2, 3), MovePiece = White\<rparr>]"
  by code_simp

section \<open>The evaluator\<close>

lemma fold_add_sum_list:
  "fold (\<lambda>x (s::int). s + f x) xs a = a + sum_list (map f xs)"
  by (induction xs arbitrary: a) simp_all

lemma evaluatePosition_score:
  assumes "Piece p \<noteq> Empty"
  shows "evaluatePosition p b = positional_score (Piece p) b"
proof -
  have step: "(\<lambda>j score. let piece = GetPiece b i j in
         if piece = Piece p then score + weights ! nat i ! nat j
         else if piece \<noteq> Empty then score - weights ! nat i ! nat j
         else score)
      = (\<lambda>j score. score + contribution (Piece p) (GetPiece b i j) (weights ! nat i ! nat j))" for i
    using assms by (auto simp: contribution_def Let_def fun_eq_iff)
  show ?thesis
    unfolding evaluatePosition_def positional_score_def step fold_add_sum_list
    by simp
qed

lemma contribution_antisym: "contribution Black x w = - contribution White x w"
  by (cases x) (simp_all add: contribution_def)

lemma sum_list_map_uminus: "sum_list (map (\<lambda>x. - f x) xs) = - (sum_list (map f xs) :: int)"
  by (induction xs) simp_all

lemma positional_score_antisym: "positional_score Black b = - positional_score White b"
  unfolding positional_score_def contribution_antisym sum_list_map_uminus ..

text \<open>
  C6. For every board the score computed for Black is the negation of the score
  computed for White, and each of the two is the sum over the 64 cells of the table
  entry, counted positively for the scored colour, negatively for the other colour and
  not at all for an empty cell.
\<close>

theorem C6_evaluator_antisymmetric:
  "evaluatePosition (p\<lparr>Piece := Black\<rparr>) b = - evaluatePosition (p\<lparr>Piece := White\<rparr>) b
   \<and> evaluatePosition (p\<lparr>Piece := Black\<rparr>) b = positional_score Black b
   \<and> evaluatePosition (p\<lparr>Piece := White\<rparr>) b = positional_score White b"
  using evaluatePosition_score [of "p\<lparr>Piece := Black\<rparr>" b]
    evaluatePosition_score [of "p\<lparr>Piece := White\<rparr>" b] positional_score_antisym [of b]
  by simp

theorem C6_evaluator_antisymmetric_witness:
  "evaluatePosition \<lparr>Difficulty = Hard, Piece = Black\<rparr> (snd (MakeMove NewBoard 2 3)) = - 3
   \<and> evaluatePosition \<lparr>Difficulty = Hard, Piece = White\<rparr> (snd (MakeMove NewBoard 2 3)) = 3"
proof -
  have "evaluatePosition \<lparr>Difficulty = Hard, Piece = White\<rparr> (snd (MakeMove NewBoard 2 3)) = 3"
    by code_simp
  then show ?thesis
    using C6_evaluator_antisymmetric [of "\<lparr>Difficulty = Hard, Piece = Black\<rparr>" "snd (MakeMove NewBoard 2 3)"]
    by simp
qed

section \<open>The search\<close>

lemma IsGameOver_board: "snd (IsGameOver b) = b"
  by (simp add: IsGameOver_def Let_def)






section \<open>Move selection\<close>

text \<open>
  C9. With a difficulty that is none of \<open>easy\<close>, \<open>medium\<close>, \<open>hard\<close>, \<open>GetMove\<close> returns what
  the Easy tier returns, with the \<open>nil\<close> error: (-1, -1) when the board has no valid move,
  and otherwise the valid move at the index the random generator hands out.
\<close>

theorem C9_unknown_difficulty_plays_easy:
  assumes "Difficulty p \<noteq> Easy" and "Difficulty p \<noteq> Medium" and "Difficulty p \<noteq> Hard"
    and "\<And>n. 0 < n \<Longrightarrow> intn n < n"
  shows "GetMove p board intn = GetMove (p\<lparr>Difficulty := Easy\<rparr>) board intn
         \<and> (if length (GetValidMoves board) = 0 then GetMove p board intn = Some (-1, -1, None)
            else GetValidMoves board ! intn (length (GetValidMoves board)) \<in> set (GetValidMoves board)
               \<and> GetMove p board intn =
                   Some (fst (GetValidMoves board ! intn (length (GetValidMoves board))),
                         snd (GetValidMoves board ! intn (length (GetValidMoves board))), None))"
  using assms by (simp add: GetMove_def getRandomMove_def Let_def)

theorem C9_unknown_difficulty_plays_easy_witness:
  "GetMove \<lparr>Difficulty = '''', Piece = White\<rparr> NewBoard (\<lambda>n. n - 1) = Some (5, 4, None)
   \<and> GetMove \<lparr>Difficulty = ''Easy'', Piece = White\<rparr> NewBoard (\<lambda>n. n - 1) = Some (5, 4, None)"
proof -
  have e: "GetMove \<lparr>Difficulty = Easy, Piece = White\<rparr> NewBoard (\<lambda>n. n - 1) = Some (5, 4, None)"
    by code_simp
  have "GetMove \<lparr>Difficulty = '''', Piece = White\<rparr> NewBoard (\<lambda>n. n - 1) = Some (5, 4, None)"
    using C9_unknown_difficulty_plays_easy [of "\<lparr>Difficulty = '''', Piece = White\<rparr>" "\<lambda>n. n - 1" NewBoard] e
    by (simp add: Easy_def Medium_def Hard_def)
  moreover have "GetMove \<lparr>Difficulty = ''Easy'', Piece = White\<rparr> NewBoard (\<lambda>n. n - 1) = Some (5, 4, None)"
    using C9_unknown_difficulty_plays_easy [of "\<lparr>Difficulty = ''Easy'', Piece = White\<rparr>" "\<lambda>n. n - 1" NewBoard] e
    by (simp add: Easy_def Medium_def Hard_def)
  ultimately show ?thesis by simp
qed

section \<open>Move notation\<close>

lemma ParseMove_pass: "mv \<in> pass_spellings \<Longrightarrow> ParseMove mv = Inr (-1, -1)"
  by (auto simp: pass_spellings_def ParseMove_def)

lemma ParseMove_short: "length mv < 2 \<Longrightarrow> ParseMove mv = Inl InvalidMoveFormat"
  by (simp add: ParseMove_def)

lemma ParseMove_column:
  assumes "2 \<le> length mv" and "mv \<notin> pass_spellings" and "\<not> is_column_letter (hd mv)"
  shows "ParseMove mv = Inl InvalidColumn"
  using assms by (auto simp: ParseMove_def pass_spellings_def is_column_letter_def Let_def)

lemma ParseMove_letter:
  assumes "2 \<le> length mv" and "is_column_letter (hd mv)"
  shows "ParseMove mv =
           (if parsed_row mv < 0 \<or> parsed_row mv \<ge> 8 then Inl OutOfBounds
            else Inr (parsed_row mv, column_index (hd mv)))"
proof -
  from assms(2) have np: "mv \<noteq> ''pass''" "mv \<noteq> ''Pass''" "mv \<noteq> ''PASS''"
    by (auto simp: is_column_letter_def)
  show ?thesis
    using assms np
    by (auto simp: ParseMove_def is_column_letter_def column_index_def parsed_row_def Let_def)
qed

lemma to_lower_p:
  assumes "to_lower ch = CHR ''p''"
  shows "\<not> is_column_letter ch"
proof (cases "65 \<le> (of_char ch :: nat) \<and> (of_char ch :: nat) \<le> 90")
  case True
  with assms have "char_of ((of_char ch :: nat) + 32) = CHR ''p''"
    by (simp add: to_lower_def)
  then have "of_char (char_of ((of_char ch :: nat) + 32)) = (of_char (CHR ''p'') :: nat)"
    by simp
  with True have "(of_char ch :: nat) = 80"
    by (simp add: of_char_of)
  then show ?thesis
    by (simp add: is_column_letter_def)
next
  case False
  with assms have "ch = CHR ''p''"
    by (simp add: to_lower_def)
  then show ?thesis
    by (simp add: is_column_letter_def)
qed

lemma ParseMove_other_case:
  assumes "map to_lower mv = ''pass''" and "mv \<notin> pass_spellings"
  shows "ParseMove mv = Inl InvalidColumn"
proof -
  from assms(1) obtain ch rest where mv: "mv = ch # rest" and ch: "to_lower ch = CHR ''p''"
    by (cases mv) auto
  from assms(1) have "length (map to_lower mv) = 4"
    by simp
  then have "2 \<le> length mv"
    by simp
  moreover have "\<not> is_column_letter (hd mv)"
    using to_lower_p [OF ch] mv by simp
  ultimately show ?thesis
    using assms(2) by (simp add: ParseMove_column)
qed

lemma column_index_range:
  "is_column_letter ch \<Longrightarrow> 0 \<le> column_index ch \<and> column_index ch < 8"
  by (auto simp: is_column_letter_def column_index_def)

text \<open>
  C7, as the code has it. The pass token is accepted in the three spellings the code
  lists, \<open>pass\<close>, \<open>Pass\<close> and \<open>PASS\<close>; any other capitalisation of it is rejected as an
  invalid column. An input shorter than two characters fails with \<open>invalid move format\<close>,
  a first character outside A-H and a-h with \<open>invalid column\<close>; after a column letter, a
  row outside 0..7 fails with \<open>position out of bounds\<close> (the column of a column letter is
  always inside).
\<close>

theorem C7_ParseMove_pass_and_errors:
  "(mv \<in> pass_spellings \<longrightarrow> ParseMove mv = Inr (-1, -1))
   \<and> (map to_lower mv = ''pass'' \<and> mv \<notin> pass_spellings \<longrightarrow> ParseMove mv = Inl InvalidColumn)
   \<and> (length mv < 2 \<longrightarrow> ParseMove mv = Inl InvalidMoveFormat)
   \<and> (2 \<le> length mv \<and> mv \<notin> pass_spellings \<and> \<not> is_column_letter (hd mv)
        \<longrightarrow> ParseMove mv = Inl InvalidColumn)
   \<and> (2 \<le> length mv \<and> is_column_letter (hd mv)
        \<longrightarrow> 0 \<le> column_index (hd mv) \<and> column_index (hd mv) < 8
            \<and> (if parsed_row mv < 0 \<or> 8 \<le> parsed_row mv then ParseMove mv = Inl OutOfBounds
               else ParseMove mv = Inr (parsed_row mv, column_index (hd mv))))"
  by (simp add: ParseMove_pass ParseMove_other_case ParseMove_short ParseMove_column
      ParseMove_letter column_index_range)

theorem C7_ParseMove_pass_and_errors_witness:
  "ParseMove ''PASS'' = Inr (-1, -1)
   \<and> ParseMove ''paSS'' = Inl InvalidColumn
   \<and> ParseMove ''E'' = Inl InvalidMoveFormat
   \<and> ParseMove ''Z4'' = Inl InvalidColumn
   \<and> ParseMove ''E9'' = Inl OutOfBounds
   \<and> ParseMove ''E4'' = Inr (3, 4)"
proof -
  have 1: "''PASS'' \<in> pass_spellings" "''paSS'' \<notin> pass_spellings" "''Z4'' \<notin> pass_spellings"
    by (simp_all add: pass_spellings_def)
  have 2: "map to_lower ''paSS'' = ''pass''"
    by code_simp
  have 3: "\<not> is_column_letter (hd ''Z4'')" "is_column_letter (hd ''E9'')" "is_column_letter (hd ''E4'')"
    by (simp_all add: is_column_letter_def)
  have 4: "parsed_row ''E9'' = 8" "parsed_row ''E4'' = 3" "column_index (hd ''E4'') = 4"
    by code_simp+
  show ?thesis
    using C7_ParseMove_pass_and_errors [of "''PASS''"] C7_ParseMove_pass_and_errors [of "''paSS''"]
      C7_ParseMove_pass_and_errors [of "''E''"] C7_ParseMove_pass_and_errors [of "''Z4''"]
      C7_ParseMove_pass_and_errors [of "''E9''"] C7_ParseMove_pass_and_errors [of "''E4''"]
      1 2 3 4
    by simp
qed

text \<open>
  The claim as it was worded, the pass token in any letter case, fails on \<open>pAss\<close>.
\<close>

theorem C7_mixed_case_pass_counterexample:
  "map to_lower ''pAss'' = ''pass'' \<and> ParseMove ''pAss'' = Inl InvalidColumn
   \<and> ParseMove ''pAss'' \<noteq> Inr (-1, -1)"
  by code_simp

lemma skipSpace_digit:
  assumes "48 \<le> x" and "x \<le> 57"
  shows "skipSpace (x # xs) = Some (x # xs)"
  using assms by (simp split: list.splits)

lemma foldl_digits: 
  "foldl (\<lambda>n d. 10 * n + (int d - 48)) a (map of_char ds)
     = foldl (\<lambda>n ch. 10 * n + (int (of_char ch) - 48)) a ds"
  by (induction ds arbitrary: a) simp_all

lemma takeWhile_digits:
  assumes "list_all is_digit ds" and "rest = [] \<or> \<not> is_digit (hd rest)"
  shows "takeWhile (\<lambda>n::nat. 48 \<le> n \<and> n \<le> 57) (map of_char (ds @ rest)) = map of_char ds"
proof -
  have a: "\<forall>x\<in>set (map of_char ds). 48 \<le> x \<and> x \<le> (57::nat)"
    using assms(1) by (auto simp: list_all_iff is_digit_def)
  have b: "takeWhile (\<lambda>n::nat. 48 \<le> n \<and> n \<le> 57) (map of_char rest) = ([] :: nat list)"
    using assms(2) by (cases rest) (auto simp: is_digit_def)
  show ?thesis
    using a b by (simp add: takeWhile_append2 del: set_map)
qed

lemma Sscanf_d_digits:
  assumes "ds \<noteq> []" and "list_all is_digit ds" and "rest = [] \<or> \<not> is_digit (hd rest)"
    and "0 \<le> digits_value ds" and "digits_value ds < 2 ^ 63"
  shows "Sscanf_d (ds @ rest) = Some (digits_value ds)"
proof -
  from assms(1) obtain d ds' where ds: "ds = d # ds'"
    by (cases ds) auto
  with assms(2) have d: "48 \<le> (of_char d :: nat)" "(of_char d :: nat) \<le> 57"
    by (simp_all add: is_digit_def)
  have sk: "skipSpace (map of_char (ds @ rest)) = Some (map of_char (ds @ rest))"
    using skipSpace_digit [OF d] ds by simp
  have tw: "takeWhile (\<lambda>n::nat. 48 \<le> n \<and> n \<le> 57) (of_char d # map of_char (ds' @ rest)) = map of_char ds"
    using takeWhile_digits [OF assms(2,3)] ds by simp
  have v: "foldl (\<lambda>n d. 10 * n + (int d - 48)) 0 (map of_char ds) = digits_value ds"
    by (simp add: foldl_digits digits_value_def)
  have ne: "(of_char d :: nat) \<noteq> 43" "(of_char d :: nat) \<noteq> 45"
    using d by simp_all
  show ?thesis
    unfolding Sscanf_d_def sk
    using assms(4,5) ne v tw ds
    by (simp add: Let_def del: takeWhile.simps)
qed

text \<open>
  C10. After a column letter, a remainder that starts with a run of digits denoting a row
  number from 1 to 8 (the whole run: it ends at the end of the input or before a character
  that is not a digit) is accepted, and what follows the digits plays no part. When
  \<open>Sscanf\<close> reads no integer from the remainder, the row stays -1 and the error is
  \<open>position out of bounds\<close>, not one of the format errors.
\<close>

theorem C10_ParseMove_ignores_tail:
  "(is_column_letter ch \<and> ds \<noteq> [] \<and> list_all is_digit ds \<and> (rest = [] \<or> \<not> is_digit (hd rest))
      \<and> 1 \<le> digits_value ds \<and> digits_value ds \<le> 8
     \<longrightarrow> ParseMove (ch # ds @ rest) = Inr (digits_value ds - 1, column_index ch)
         \<and> ParseMove (ch # ds @ rest) = ParseMove (ch # ds))
   \<and> (2 \<le> length mv \<and> is_column_letter (hd mv) \<and> Sscanf_d (tl mv) = None
     \<longrightarrow> ParseMove mv = Inl OutOfBounds)"
proof -
  have go: "go_int (v - 1) = v - 1" if "1 \<le> v" "v \<le> 8" for v
    using that by (simp add: go_int_def)
  have one: "ParseMove (ch # ds @ rest') = Inr (digits_value ds - 1, column_index ch)"
    if "is_column_letter ch" "ds \<noteq> []" "list_all is_digit ds" "rest' = [] \<or> \<not> is_digit (hd rest')"
      "1 \<le> digits_value ds" "digits_value ds \<le> 8" for rest'
  proof -
    have s: "Sscanf_d (ds @ rest') = Some (digits_value ds)"
      using that by (intro Sscanf_d_digits) simp_all
    have l: "2 \<le> length (ch # ds @ rest')"
      using that(2) by (cases ds) simp_all
    show ?thesis
      using ParseMove_letter [OF l] that s go [OF that(5,6)]
      by (simp add: parsed_row_def)
  qed
  have two: "ParseMove mv = Inl OutOfBounds"
    if "2 \<le> length mv" "is_column_letter (hd mv)" "Sscanf_d (tl mv) = None"
    using ParseMove_letter [OF that(1,2)] that(3)
    by (simp add: parsed_row_def go_int_def)
  show ?thesis
    using one [of rest] one [of "[]"] two by auto
qed

theorem C10_ParseMove_ignores_tail_witness:
  "ParseMove ''A1xyz'' = Inr (0, 0) \<and> ParseMove ''A1xyz'' = ParseMove ''A1''
   \<and> ParseMove ''Ax'' = Inl OutOfBounds"
proof -
  have 1: "is_column_letter CHR ''A''" "list_all is_digit ''1''" "\<not> is_digit (hd ''xyz'')"
    "digits_value ''1'' = 1" "column_index CHR ''A'' = 0"
    by (simp_all add: is_column_letter_def is_digit_def digits_value_def column_index_def)
  have 2: "is_column_letter (hd ''Ax'')" "Sscanf_d (tl ''Ax'') = None"
    "ParseMove ''A1'' = Inr (0, 0)"
    by code_simp+
  show ?thesis
    using C10_ParseMove_ignores_tail [of "CHR ''A''" "''1''" "''xyz''" "''Ax''"] 1 2
    by simp
qed

section \<open>Legal moves\<close>

lemma not_own_not_empty:
  assumes "CurrentPlayer b \<noteq> Empty"
  shows "p \<noteq> CurrentPlayer b \<and> p \<noteq> Empty \<longleftrightarrow> p = getOpponent b"
  using assms by (cases p; cases "CurrentPlayer b") (simp_all add: getOpponent_def)

lemma run_to_own_0:
  "run_to_own b dir r c 0 \<longleftrightarrow> IsValidPosition b r c \<and> cell b r c = CurrentPlayer b"
  by (simp add: run_to_own_def)

lemma run_to_own_Suc:
  "run_to_own b dir r c (Suc m) \<longleftrightarrow>
     IsValidPosition b r c \<and> cell b r c = getOpponent b
     \<and> run_to_own b dir (r + fst dir) (c + snd dir) m"
proof -
  have a: "(\<forall>k<Suc m. Q k) \<longleftrightarrow> Q 0 \<and> (\<forall>k<m. Q (Suc k))" for Q
    by (metis less_Suc_eq_0_disj)
  show ?thesis
    unfolding run_to_own_def a by (simp add: algebra_simps)
qed

lemma scanOwn_iff:
  assumes "CurrentPlayer b \<noteq> Empty" and "dir \<noteq> (0, 0)"
  shows "scanOwn b dir r c \<longleftrightarrow> (\<exists>m. run_to_own b dir r c m)"
  using assms
proof (induction b dir r c rule: scanOwn.induct)
  case (1 b dir r c)
  have opp_ne: "getOpponent b \<noteq> CurrentPlayer b" "getOpponent b \<noteq> Empty"
    by (simp_all add: getOpponent_def)
  have ex: "(\<exists>m. run_to_own b dir r c m) \<longleftrightarrow>
              run_to_own b dir r c 0 \<or> (\<exists>m. run_to_own b dir r c (Suc m))"
    by (metis not0_implies_Suc)
  show ?case
  proof (cases "IsValidPosition b r c \<and> cell b r c \<noteq> CurrentPlayer b \<and> cell b r c \<noteq> Empty")
    case True
    then have opp: "cell b r c = getOpponent b"
      using not_own_not_empty [OF 1(2)] by blast
    have step: "scanOwn b dir r c = scanOwn b dir (r + fst dir) (c + snd dir)"
      using True 1(3) by (subst scanOwn.simps) simp
    have IH: "scanOwn b dir (r + fst dir) (c + snd dir)
                \<longleftrightarrow> (\<exists>m. run_to_own b dir (r + fst dir) (c + snd dir) m)"
      using 1(1) True 1(2,3) by blast
    show ?thesis
      unfolding step IH ex run_to_own_0 run_to_own_Suc using True opp by simp
  next
    case False
    then consider "\<not> IsValidPosition b r c"
      | "IsValidPosition b r c" "cell b r c = CurrentPlayer b"
      | "IsValidPosition b r c" "cell b r c \<noteq> CurrentPlayer b" "cell b r c = Empty"
      by blast
    then show ?thesis
    proof cases
      case 1
      then show ?thesis
        unfolding ex run_to_own_0 run_to_own_Suc by (subst scanOwn.simps) simp
    next
      case 2
      then show ?thesis
        unfolding ex run_to_own_0 run_to_own_Suc using \<open>dir \<noteq> (0, 0)\<close>
        by (subst scanOwn.simps) simp
    next
      case 3
      then show ?thesis
        unfolding ex run_to_own_0 run_to_own_Suc using \<open>dir \<noteq> (0, 0)\<close> opp_ne
        by (subst scanOwn.simps) simp
    qed
  qed
qed

lemma brackets_iff:
  "brackets b row col dir \<longleftrightarrow>
     IsValidPosition b (row + fst dir) (col + snd dir)
     \<and> cell b (row + fst dir) (col + snd dir) = getOpponent b
     \<and> (\<exists>m. run_to_own b dir (row + fst dir + fst dir) (col + snd dir + snd dir) m)"
  (is "?L \<longleftrightarrow> ?V \<and> ?O \<and> (\<exists>m. ?R m)")
proof
  assume ?L
  then obtain n where n: "1 \<le> n"
    and run: "\<forall>k::nat. 1 \<le> k \<and> k \<le> n \<longrightarrow>
              IsValidPosition b (row + int k * fst dir) (col + int k * snd dir)
              \<and> cell b (row + int k * fst dir) (col + int k * snd dir) = getOpponent b"
    and own: "IsValidPosition b (row + int (n + 1) * fst dir) (col + int (n + 1) * snd dir)"
      "cell b (row + int (n + 1) * fst dir) (col + int (n + 1) * snd dir) = CurrentPlayer b"
    unfolding brackets_def by blast
  from run n have "IsValidPosition b (row + int 1 * fst dir) (col + int 1 * snd dir)
      \<and> cell b (row + int 1 * fst dir) (col + int 1 * snd dir) = getOpponent b"
    by blast
  then have vo: "?V \<and> ?O" by simp
  have "?R (n - 1)"
    unfolding run_to_own_def
  proof (intro conjI allI impI)
    fix k assume "k < n - 1"
    then have "1 \<le> k + 2 \<and> k + 2 \<le> n" by simp
    with run have "IsValidPosition b (row + int (k + 2) * fst dir) (col + int (k + 2) * snd dir)
              \<and> cell b (row + int (k + 2) * fst dir) (col + int (k + 2) * snd dir) = getOpponent b"
      by blast
    then show "IsValidPosition b (row + fst dir + fst dir + int k * fst dir)
                 (col + snd dir + snd dir + int k * snd dir)"
      and "cell b (row + fst dir + fst dir + int k * fst dir)
                 (col + snd dir + snd dir + int k * snd dir) = getOpponent b"
      by (simp_all add: algebra_simps)
  next
    from n have e: "int (n + 1) = 2 + int (n - 1)" by simp
    from own show "IsValidPosition b (row + fst dir + fst dir + int (n - 1) * fst dir)
                 (col + snd dir + snd dir + int (n - 1) * snd dir)"
      and "cell b (row + fst dir + fst dir + int (n - 1) * fst dir)
                 (col + snd dir + snd dir + int (n - 1) * snd dir) = CurrentPlayer b"
      unfolding e by (simp_all add: algebra_simps)
  qed
  with vo show "?V \<and> ?O \<and> (\<exists>m. ?R m)" by blast
next
  assume r: "?V \<and> ?O \<and> (\<exists>m. ?R m)"
  then obtain m where m: "?R m" by blast
  have A: "IsValidPosition b (row + int k * fst dir) (col + int k * snd dir)
          \<and> cell b (row + int k * fst dir) (col + int k * snd dir) = getOpponent b"
    if k: "1 \<le> k \<and> k \<le> m + 1" for k :: nat
  proof (cases "k = 1")
    case True
    with r show ?thesis by simp
  next
    case False
    with k have "k - 2 < m" and e: "int k = 2 + int (k - 2)" by auto
    with m have "IsValidPosition b (row + fst dir + fst dir + int (k - 2) * fst dir)
               (col + snd dir + snd dir + int (k - 2) * snd dir)
       \<and> cell b (row + fst dir + fst dir + int (k - 2) * fst dir)
               (col + snd dir + snd dir + int (k - 2) * snd dir) = getOpponent b"
      unfolding run_to_own_def by blast
    then show ?thesis
      unfolding e by (simp add: algebra_simps)
  qed
  have e: "int (m + 1 + 1) = 2 + int m" by simp
  from m have B: "IsValidPosition b (row + int (m + 1 + 1) * fst dir) (col + int (m + 1 + 1) * snd dir)"
    and C: "cell b (row + int (m + 1 + 1) * fst dir) (col + int (m + 1 + 1) * snd dir) = CurrentPlayer b"
    unfolding e run_to_own_def by (simp_all add: algebra_simps)
  have "1 \<le> m + 1" by simp
  with A B C show ?L
    unfolding brackets_def by blast
qed

lemma validDirs_iff:
  assumes "CurrentPlayer b \<noteq> Empty" and "(0, 0) \<notin> set dirs"
  shows "validDirs b row col dirs \<longleftrightarrow> (\<exists>dir\<in>set dirs. brackets b row col dir)"
  using assms(2)
proof (induction dirs)
  case Nil
  show ?case by simp
next
  case (Cons dir dirs)
  then have d: "dir \<noteq> (0, 0)" and IH: "validDirs b row col dirs \<longleftrightarrow> (\<exists>dir\<in>set dirs. brackets b row col dir)"
    by auto
  show ?case
    using IH scanOwn_iff [OF assms(1) d, of "row + fst dir + fst dir" "col + snd dir + snd dir"]
      brackets_iff [of b row col dir]
    by (auto simp: Let_def)
qed

lemma Directions_nonzero: "(0, 0) \<notin> set Directions"
  by (simp add: Directions_def)

text \<open>
  C1. On a board of size 8 whose current player is Black or White, \<open>IsValidMove\<close> is false
  off the board and on an occupied cell, and otherwise it is true exactly when one of the
  eight directions brackets: the neighbour holds the opponent, the opponent run goes on
  without an empty cell or the edge, and it ends at a piece of the current player.
\<close>

theorem C1_IsValidMove_iff_bracketing:
  assumes "wf_board b" and "CurrentPlayer b \<noteq> Empty"
  shows "(IsValidPosition b row col \<longleftrightarrow> 0 \<le> row \<and> row < 8 \<and> 0 \<le> col \<and> col < 8)
         \<and> (\<not> IsValidPosition b row col \<or> cell b row col \<noteq> Empty \<longrightarrow> \<not> IsValidMove b row col)
         \<and> (IsValidPosition b row col \<and> cell b row col = Empty \<longrightarrow>
              (IsValidMove b row col \<longleftrightarrow> (\<exists>dir\<in>set Directions. brackets b row col dir)))
         \<and> set Directions = {(dr, dc). dr \<in> {-1, 0, 1} \<and> dc \<in> {-1, 0, 1}} - {(0, 0)}"
proof -
  have "set Directions = {(dr, dc). dr \<in> {-1, 0, 1} \<and> dc \<in> {-1, 0, 1}} - {(0, 0)}"
    by (auto simp: Directions_def)
  moreover have "IsValidPosition b row col \<longleftrightarrow> 0 \<le> row \<and> row < 8 \<and> 0 \<le> col \<and> col < 8"
    using assms(1) by (auto simp: wf_board_def IsValidPosition_def)
  ultimately show ?thesis
    using validDirs_iff [OF assms(2) Directions_nonzero, of row col]
    by (simp add: IsValidMove_def)
qed

lemma wf_NewBoard: "wf_board NewBoard"
  by code_simp

theorem C1_IsValidMove_iff_bracketing_witness:
  "IsValidMove NewBoard 2 3 \<and> (\<exists>dir\<in>set Directions. brackets NewBoard 2 3 dir)
   \<and> \<not> IsValidMove NewBoard 3 3 \<and> \<not> IsValidMove NewBoard 8 0"
proof -
  have 1: "CurrentPlayer NewBoard \<noteq> Empty"
    by (simp add: NewBoard_def)
  have 2: "IsValidMove NewBoard 2 3" "cell NewBoard 2 3 = Empty" "cell NewBoard 3 3 \<noteq> Empty"
    by code_simp+
  show ?thesis
    using C1_IsValidMove_iff_bracketing [OF wf_NewBoard 1, of 2 3]
      C1_IsValidMove_iff_bracketing [OF wf_NewBoard 1, of 3 3]
      C1_IsValidMove_iff_bracketing [OF wf_NewBoard 1, of 8 0] 2
    by simp
qed

section \<open>The end of the game\<close>

lemma IsValidMove_on_board: "IsValidMove b i j \<Longrightarrow> IsValidPosition b i j"
  by (auto simp: IsValidMove_def split: if_splits)

lemma set_GetValidMoves: "set (GetValidMoves b) = {(i, j). IsValidMove b i j}"
proof -
  have "0 \<le> i \<and> i \<le> Size b - 1 \<and> 0 \<le> j \<and> j \<le> Size b - 1" if "IsValidMove b i j" for i j
    using IsValidMove_on_board [OF that] by (simp add: IsValidPosition_def)
  then show ?thesis
    by (auto simp: GetValidMoves_def)
qed

lemma HasValidMove_iff: "HasValidMove b \<longleftrightarrow> (\<exists>i j. IsValidMove b i j)"
proof -
  have "HasValidMove b \<longleftrightarrow> set (GetValidMoves b) \<noteq> {}"
    by (simp add: HasValidMove_def)
  then show ?thesis
    unfolding set_GetValidMoves by auto
qed

text \<open>
  C8. On a board of size 8, \<open>IsGameOver\<close> answers true exactly when no cell is a legal move
  for the current player and none is for the opponent, and the board it leaves is the
  board it was given: \<open>CurrentPlayer\<close>, the grid, the size and the counts.
\<close>

theorem C8_IsGameOver_iff_and_frame:
  assumes "wf_board b"
  shows "(fst (IsGameOver b) \<longleftrightarrow>
            (\<forall>i j. \<not> IsValidMove b i j)
            \<and> (\<forall>i j. \<not> IsValidMove (b\<lparr>CurrentPlayer := getOpponent b\<rparr>) i j))
         \<and> snd (IsGameOver b) = b
         \<and> CurrentPlayer (snd (IsGameOver b)) = CurrentPlayer b"
  by (auto simp: IsGameOver_def Let_def HasValidMove_iff)

theorem C8_IsGameOver_iff_and_frame_witness:
  "\<not> fst (IsGameOver NewBoard) \<and> snd (IsGameOver NewBoard) = NewBoard
   \<and> fst (IsGameOver (NewBoard\<lparr>Cells := replicate 8 (replicate 8 Black), BlackCnt := 64, WhiteCnt := 0\<rparr>))
   \<and> snd (IsGameOver (NewBoard\<lparr>Cells := replicate 8 (replicate 8 Black), BlackCnt := 64, WhiteCnt := 0\<rparr>)) =
        NewBoard\<lparr>Cells := replicate 8 (replicate 8 Black), BlackCnt := 64, WhiteCnt := 0\<rparr>"
proof -
  have 1: "IsValidMove NewBoard 2 3"
    by code_simp
  have 2: "wf_board (NewBoard\<lparr>Cells := replicate 8 (replicate 8 Black), BlackCnt := 64, WhiteCnt := 0\<rparr>)"
    by code_simp
  have 3: "fst (IsGameOver (NewBoard\<lparr>Cells := replicate 8 (replicate 8 Black), BlackCnt := 64, WhiteCnt := 0\<rparr>))"
    by code_simp
  show ?thesis
    using C8_IsGameOver_iff_and_frame [OF wf_NewBoard]
      C8_IsGameOver_iff_and_frame [OF 2] 1 3
    by auto
qed

section \<open>Piece counts\<close>

lemma filter_update_count:
  assumes "i < length xs"
  shows "int (length (filter P (xs[i := x]))) =
           int (length (filter P xs)) - (if P (xs ! i) then 1 else 0) + (if P x then 1 else 0)"
proof -
  have xs: "xs = take i xs @ xs ! i # drop (Suc i) xs"
    using assms by (rule id_take_nth_drop)
  have "int (length (filter P xs)) =
          int (length (filter P (take i xs))) + (if P (xs ! i) then 1 else 0)
          + int (length (filter P (drop (Suc i) xs)))"
    by (subst xs) simp
  moreover have "int (length (filter P (xs[i := x]))) =
          int (length (filter P (take i xs))) + (if P x then 1 else 0)
          + int (length (filter P (drop (Suc i) xs)))"
    using assms by (simp add: upd_conv_take_nth_drop)
  ultimately show ?thesis by simp
qed

lemma filter_concat_update_count:
  assumes "i < length xss"
  shows "int (length (filter P (concat (xss[i := ys])))) =
           int (length (filter P (concat xss))) - int (length (filter P (xss ! i)))
           + int (length (filter P ys))"
proof -
  have xs: "xss = take i xss @ xss ! i # drop (Suc i) xss"
    using assms by (rule id_take_nth_drop)
  have "int (length (filter P (concat xss))) =
          int (length (filter P (concat (take i xss)))) + int (length (filter P (xss ! i)))
          + int (length (filter P (concat (drop (Suc i) xss))))"
    by (subst xs) simp
  moreover have "int (length (filter P (concat (xss[i := ys])))) =
          int (length (filter P (concat (take i xss)))) + int (length (filter P ys))
          + int (length (filter P (concat (drop (Suc i) xss))))"
    using assms by (simp add: upd_conv_take_nth_drop)
  ultimately show ?thesis by simp
qed

lemma wf_board_rows:
  assumes "wf_board b" and "IsValidPosition b r c"
  shows "nat r < length (Cells b)" and "nat c < length (Cells b ! nat r)"
proof -
  from assms have r: "nat r < 8" and c: "nat c < 8"
    by (auto simp: wf_board_def IsValidPosition_def)
  from assms(1) r show "nat r < length (Cells b)"
    by (simp add: wf_board_def)
  from assms(1) r have "length (Cells b ! nat r) = 8"
    by (simp add: wf_board_def list_all_length)
  with c show "nat c < length (Cells b ! nat r)"
    by simp
qed

lemma setCell_fields [simp]:
  "CurrentPlayer (setCell b r c q) = CurrentPlayer b"
  "Size (setCell b r c q) = Size b"
  "BlackCnt (setCell b r c q) = BlackCnt b"
  "WhiteCnt (setCell b r c q) = WhiteCnt b"
  "getOpponent (setCell b r c q) = getOpponent b"
  "IsValidPosition (setCell b r c q) i j = IsValidPosition b i j"
  by (simp_all add: setCell_def getOpponent_def IsValidPosition_def)

lemma wf_setCell:
  assumes "wf_board b"
  shows "wf_board (setCell b r c q)"
proof -
  have "length (((Cells b)[nat r := (Cells b ! nat r)[nat c := q]]) ! n) = 8" if "n < 8" for n
  proof (cases "n = nat r")
    case True
    with that assms show ?thesis
      by (simp add: wf_board_def list_all_length)
  next
    case False
    with that assms show ?thesis
      by (simp add: wf_board_def list_all_length)
  qed
  with assms show ?thesis
    by (simp add: wf_board_def setCell_def list_all_length)
qed

lemma cell_setCell:
  assumes "wf_board b" and "IsValidPosition b r c" and "IsValidPosition b i j"
  shows "cell (setCell b r c q) i j = (if (i, j) = (r, c) then q else cell b i j)"
proof -
  note rc = wf_board_rows [OF assms(1,2)] and ij = wf_board_rows [OF assms(1,3)]
  from assms(2,3) have eq: "nat i = nat r \<longleftrightarrow> i = r" "nat j = nat c \<longleftrightarrow> j = c"
    by (auto simp: IsValidPosition_def)
  show ?thesis
    using rc ij eq by (auto simp: cell_def setCell_def nth_list_update)
qed

lemma count_cells_setCell:
  assumes "wf_board b" and "IsValidPosition b r c"
  shows "count_cells p (setCell b r c q) =
           count_cells p b - (if cell b r c = p then 1 else 0) + (if q = p then 1 else 0)"
proof -
  note rc = wf_board_rows [OF assms]
  show ?thesis
    unfolding count_cells_def setCell_def
    using filter_concat_update_count [OF rc(1), of "\<lambda>q. q = p" "(Cells b ! nat r)[nat c := q]"]
      filter_update_count [OF rc(2), of "\<lambda>q. q = p" q]
    by (simp add: cell_def)
qed

lemma count_cells_bounds:
  assumes "wf_board b"
  shows "0 \<le> count_cells p b" and "count_cells p b \<le> 64"
proof -
  have "length (concat xss) = 8 * length xss" if "list_all (\<lambda>row. length row = 8) xss"
    for xss :: "Piece list list"
    using that by (induction xss) simp_all
  with assms have "length (concat (Cells b)) = 64"
    by (simp add: wf_board_def)
  moreover have "length (filter (\<lambda>q. q = p) (concat (Cells b))) \<le> length (concat (Cells b))"
    by (rule length_filter_le)
  ultimately show "count_cells p b \<le> 64"
    by (simp add: count_cells_def)
  show "0 \<le> count_cells p b"
    by (simp add: count_cells_def)
qed

lemma count_occupied_eq: "count_occupied b = count_cells Black b + count_cells White b"
proof -
  have "length (filter (\<lambda>q. q \<noteq> Empty) xs) =
          length (filter (\<lambda>q. q = Black) xs) + length (filter (\<lambda>q. q = White) xs)"
    for xs :: "Piece list"
  proof (induction xs)
    case Nil
    show ?case by simp
  next
    case (Cons x xs)
    then show ?case by (cases x) simp_all
  qed
  then show ?thesis
    by (simp add: count_occupied_def count_cells_def)
qed

lemma opponent_facts:
  "getOpponent b \<noteq> CurrentPlayer b" "getOpponent b \<noteq> Empty"
  by (simp_all add: getOpponent_def)

lemma flipList_counts:
  assumes "wf_board b"
    and "\<forall>pos\<in>set ps. IsValidPosition b (fst pos) (snd pos)
                      \<and> cell b (fst pos) (snd pos) = getOpponent b"
    and "distinct ps"
    and "flipList b ps f = (b', f')"
  shows "wf_board b' \<and> CurrentPlayer b' = CurrentPlayer b \<and> Size b' = Size b
         \<and> BlackCnt b' = BlackCnt b \<and> WhiteCnt b' = WhiteCnt b
         \<and> f' = f + int (length ps)
         \<and> count_cells (CurrentPlayer b) b' = count_cells (CurrentPlayer b) b + int (length ps)
         \<and> count_cells (getOpponent b) b' = count_cells (getOpponent b) b - int (length ps)"
  using assms
proof (induction ps arbitrary: b f)
  case Nil
  then show ?case by simp
next
  case (Cons pos ps)
  let ?b1 = "setCell b (fst pos) (snd pos) (CurrentPlayer b)"
  from Cons.prems(2) have v: "IsValidPosition b (fst pos) (snd pos)"
    and o: "cell b (fst pos) (snd pos) = getOpponent b"
    by simp_all
  have wf1: "wf_board ?b1"
    using Cons.prems(1) by (rule wf_setCell)
  have rest: "\<forall>p\<in>set ps. IsValidPosition ?b1 (fst p) (snd p)
                      \<and> cell ?b1 (fst p) (snd p) = getOpponent ?b1"
  proof
    fix p assume p: "p \<in> set ps"
    with Cons.prems(2) have pv: "IsValidPosition b (fst p) (snd p)"
      and po: "cell b (fst p) (snd p) = getOpponent b"
      by simp_all
    from p Cons.prems(3) have "p \<noteq> pos" by auto
    then have "(fst p, snd p) \<noteq> (fst pos, snd pos)"
      by (simp add: prod_eq_iff)
    with cell_setCell [OF Cons.prems(1) v pv] po pv
    show "IsValidPosition ?b1 (fst p) (snd p) \<and> cell ?b1 (fst p) (snd p) = getOpponent ?b1"
      by simp
  qed
  from Cons.prems(3) have d: "distinct ps" by simp
  from Cons.prems(4) have fl: "flipList ?b1 ps (f + 1) = (b', f')" by simp
  note IH = Cons.IH [OF wf1 rest d fl]
  have c1: "count_cells (CurrentPlayer b) ?b1 = count_cells (CurrentPlayer b) b + 1"
    using count_cells_setCell [OF Cons.prems(1) v, of "CurrentPlayer b" "CurrentPlayer b"] o
      opponent_facts(1) [of b]
    by simp
  have c2: "count_cells (getOpponent b) ?b1 = count_cells (getOpponent b) b - 1"
    using count_cells_setCell [OF Cons.prems(1) v, of "getOpponent b" "CurrentPlayer b"] o
      opponent_facts(1) [of b]
    by simp
  from IH c1 c2 show ?case
    by simp
qed

lemma collectFlips_ray:
  assumes "CurrentPlayer b \<noteq> Empty" and "dir \<noteq> (0, 0)"
    and "collectFlips b dir r c acc = (ps, found)"
  shows "\<exists>m. ps = acc @ map (\<lambda>k. (r + int k * fst dir, c + int k * snd dir)) [0..<m]
           \<and> (\<forall>k<m. IsValidPosition b (r + int k * fst dir) (c + int k * snd dir)
                    \<and> cell b (r + int k * fst dir) (c + int k * snd dir) = getOpponent b)"
  using assms
proof (induction b dir r c acc rule: collectFlips.induct)
  case (1 b dir r c toFlip)
  show ?case
  proof (cases "IsValidPosition b r c \<and> cell b r c \<noteq> Empty \<and> cell b r c \<noteq> CurrentPlayer b")
    case False
    with 1(4) have "ps = toFlip"
      by (subst (asm) collectFlips.simps) (auto split: if_splits)
    then have "ps = toFlip @ map (\<lambda>k. (r + int k * fst dir, c + int k * snd dir)) [0..<0]"
      by simp
    then show ?thesis
      by blast
  next
    case True
    then have opp: "cell b r c = getOpponent b"
      using not_own_not_empty [OF 1(2)] by blast
    from True 1(3,4) have
      "collectFlips b dir (r + fst dir) (c + snd dir) (toFlip @ [(r, c)]) = (ps, found)"
      by (subst (asm) collectFlips.simps) simp
    with 1(1) True 1(2,3) obtain m where
      ps: "ps = (toFlip @ [(r, c)])
             @ map (\<lambda>k. (r + fst dir + int k * fst dir, c + snd dir + int k * snd dir)) [0..<m]"
      and run: "\<forall>k<m. IsValidPosition b (r + fst dir + int k * fst dir) (c + snd dir + int k * snd dir)
                    \<and> cell b (r + fst dir + int k * fst dir) (c + snd dir + int k * snd dir)
                        = getOpponent b"
      by blast
    have shift: "(r + fst dir + int k * fst dir, c + snd dir + int k * snd dir)
                   = (r + int (Suc k) * fst dir, c + int (Suc k) * snd dir)" for k
      by (simp add: algebra_simps)
    have "map (\<lambda>k. (r + int k * fst dir, c + int k * snd dir)) [0..<Suc m]
            = (r, c) # map (\<lambda>k. (r + int (Suc k) * fst dir, c + int (Suc k) * snd dir)) [0..<m]"
      by (subst map_upt_Suc) simp
    with ps have a: "ps = toFlip @ map (\<lambda>k. (r + int k * fst dir, c + int k * snd dir)) [0..<Suc m]"
      unfolding shift by simp
    have b: "IsValidPosition b (r + int k * fst dir) (c + int k * snd dir)
             \<and> cell b (r + int k * fst dir) (c + int k * snd dir) = getOpponent b" if "k < Suc m" for k
    proof (cases k)
      case 0
      with True opp show ?thesis by simp
    next
      case (Suc k')
      with that have "k' < m" by simp
      with run have "IsValidPosition b (r + fst dir + int k' * fst dir) (c + snd dir + int k' * snd dir)
                    \<and> cell b (r + fst dir + int k' * fst dir) (c + snd dir + int k' * snd dir)
                        = getOpponent b"
        by blast
      then show ?thesis
        unfolding Suc using shift [of k'] by (simp add: algebra_simps)
    qed
    from a b show ?thesis
      by blast
  qed
qed

lemma ray_distinct:
  assumes "dir \<noteq> (0, 0)"
  shows "distinct (map (\<lambda>k. (r + int k * fst dir, c + int k * snd dir)) [0..<m])"
proof -
  have "k = k'" if "(r + int k * fst dir, c + int k * snd dir) = (r + int k' * fst dir, c + int k' * snd dir)"
    for k k' :: nat
  proof -
    from that have 1: "int k * fst dir = int k' * fst dir" and 2: "int k * snd dir = int k' * snd dir"
      by simp_all
    from assms have "fst dir \<noteq> 0 \<or> snd dir \<noteq> 0"
      by (cases dir) simp
    then show ?thesis
    proof
      assume "fst dir \<noteq> 0"
      with 1 have "int k = int k'" by simp
      then show ?thesis by simp
    next
      assume "snd dir \<noteq> 0"
      with 2 have "int k = int k'" by simp
      then show ?thesis by simp
    qed
  qed
  then have "inj_on (\<lambda>k. (r + int k * fst dir, c + int k * snd dir)) (set [0..<m])"
    by (intro inj_onI) blast
  then show ?thesis
    by (simp add: distinct_map)
qed

lemma flipDirs_counts:
  assumes "wf_board b" and "CurrentPlayer b \<noteq> Empty" and "(0, 0) \<notin> set dirs"
    and "flipDirs b row col dirs f = (b', f')"
  shows "wf_board b' \<and> CurrentPlayer b' = CurrentPlayer b \<and> Size b' = Size b
         \<and> BlackCnt b' = BlackCnt b \<and> WhiteCnt b' = WhiteCnt b
         \<and> count_cells (CurrentPlayer b) b' - f' = count_cells (CurrentPlayer b) b - f
         \<and> count_cells (getOpponent b) b' + f' = count_cells (getOpponent b) b + f"
  using assms
proof (induction dirs arbitrary: b f)
  case Nil
  then show ?case by simp
next
  case (Cons dir dirs)
  from Cons.prems(3) have dir: "dir \<noteq> (0, 0)" and dirs: "(0, 0) \<notin> set dirs"
    by auto
  let ?r = "row + fst dir" and ?c = "col + snd dir"
  show ?case
  proof (cases "\<not> IsValidPosition b ?r ?c \<or> cell b ?r ?c \<noteq> getOpponent b")
    case True
    with Cons.prems(4) have "flipDirs b row col dirs f = (b', f')"
      by (simp add: Let_def)
    from Cons.IH [OF Cons.prems(1,2) dirs this] show ?thesis .
  next
    case False
    obtain ps found where cf: "collectFlips b dir (?r + fst dir) (?c + snd dir) [(?r, ?c)] = (ps, found)"
      by (cases "collectFlips b dir (?r + fst dir) (?c + snd dir) [(?r, ?c)]")
    show ?thesis
    proof (cases found)
      case False
      with Cons.prems(4) \<open>\<not> (\<not> IsValidPosition b ?r ?c \<or> cell b ?r ?c \<noteq> getOpponent b)\<close> cf
      have "flipDirs b row col dirs f = (b', f')"
        by (simp add: Let_def)
      from Cons.IH [OF Cons.prems(1,2) dirs this] show ?thesis .
    next
      case True
      obtain b1 f1 where fl: "flipList b ps f = (b1, f1)"
        by (cases "flipList b ps f")
      with True Cons.prems(4) \<open>\<not> (\<not> IsValidPosition b ?r ?c \<or> cell b ?r ?c \<noteq> getOpponent b)\<close> cf
      have rest: "flipDirs b1 row col dirs f1 = (b', f')"
        by (simp add: Let_def)
      from collectFlips_ray [OF Cons.prems(2) dir cf] obtain m where
        ps: "ps = [(?r, ?c)] @ map (\<lambda>k. (?r + fst dir + int k * fst dir, ?c + snd dir + int k * snd dir)) [0..<m]"
        and run: "\<forall>k<m. IsValidPosition b (?r + fst dir + int k * fst dir) (?c + snd dir + int k * snd dir)
                    \<and> cell b (?r + fst dir + int k * fst dir) (?c + snd dir + int k * snd dir)
                        = getOpponent b"
        by blast
      have shift: "(?r + fst dir + int k * fst dir, ?c + snd dir + int k * snd dir)
                   = (?r + int (Suc k) * fst dir, ?c + int (Suc k) * snd dir)" for k
        by (simp add: algebra_simps)
      have "map (\<lambda>k. (?r + int k * fst dir, ?c + int k * snd dir)) [0..<Suc m]
            = (?r, ?c) # map (\<lambda>k. (?r + int (Suc k) * fst dir, ?c + int (Suc k) * snd dir)) [0..<m]"
        by (subst map_upt_Suc) simp
      with ps have ps': "ps = map (\<lambda>k. (?r + int k * fst dir, ?c + int k * snd dir)) [0..<Suc m]"
        unfolding shift by simp
      have d: "distinct ps"
        unfolding ps' using dir by (rule ray_distinct)
      have all: "\<forall>pos\<in>set ps. IsValidPosition b (fst pos) (snd pos)
                      \<and> cell b (fst pos) (snd pos) = getOpponent b"
        unfolding ps using False run by auto
      note F = flipList_counts [OF Cons.prems(1) all d fl]
      from F Cons.prems(2) have wf1: "wf_board b1" and cp1: "CurrentPlayer b1 \<noteq> Empty"
        by simp_all
      note IH = Cons.IH [OF wf1 cp1 dirs rest]
      from F have go: "getOpponent b1 = getOpponent b"
        by (simp add: getOpponent_def)
      from IH F go show ?thesis
        by simp
    qed
  qed
qed

lemma go_int_small: "- (2 ^ 63) \<le> x \<Longrightarrow> x < 2 ^ 63 \<Longrightarrow> go_int x = x"
  by (simp add: go_int_def)

lemma count_cells_Cells: "Cells b' = Cells b \<Longrightarrow> count_cells p b' = count_cells p b"
  by (simp add: count_cells_def)

lemma MakeMove_counts:
  assumes wf: "wf_board b" and cp: "CurrentPlayer b \<noteq> Empty"
    and B: "BlackCnt b = count_cells Black b" and W: "WhiteCnt b = count_cells White b"
    and mm: "MakeMove b row col = (True, b')"
  shows "BlackCnt b' = count_cells Black b' \<and> WhiteCnt b' = count_cells White b'
         \<and> BlackCnt b' + WhiteCnt b' = BlackCnt b + WhiteCnt b + 1
         \<and> wf_board b' \<and> CurrentPlayer b' = getOpponent b"
proof -
  let ?own = "CurrentPlayer b" and ?opp = "getOpponent b"
  let ?b1 = "setCell b row col ?own"
  from mm have vm: "IsValidMove b row col"
    by (auto simp: MakeMove_def split: if_splits)
  then have v: "IsValidPosition b row col" and e: "cell b row col = Empty"
    by (auto simp: IsValidMove_def split: if_splits)
  have wf1: "wf_board ?b1"
    using wf by (rule wf_setCell)
  have cp1: "CurrentPlayer ?b1 \<noteq> Empty"
    using cp by simp
  have own1: "count_cells ?own ?b1 = count_cells ?own b + 1"
    using count_cells_setCell [OF wf v, of ?own ?own] e cp by simp
  have opp1: "count_cells ?opp ?b1 = count_cells ?opp b"
    using count_cells_setCell [OF wf v, of ?opp ?own] e opponent_facts [of b] by simp
  obtain b2 fl where fd: "flipDirs ?b1 row col Directions 0 = (b2, fl)"
    by (cases "flipDirs ?b1 row col Directions 0")
  from flipDirs_counts [OF wf1 cp1 Directions_nonzero fd]
  have wf2: "wf_board b2" and cp2: "CurrentPlayer b2 = ?own" and sz: "Size b2 = Size b"
    and B2: "BlackCnt b2 = BlackCnt b" and W2: "WhiteCnt b2 = WhiteCnt b"
    and own2: "count_cells ?own b2 - fl = count_cells ?own b + 1"
    and opp2: "count_cells ?opp b2 + fl = count_cells ?opp b"
    using own1 opp1 by simp_all
  note bd = count_cells_bounds [OF wf2]
  have g1: "go_int (count_cells p b2) = count_cells p b2" for p
    using bd [of p] by (intro go_int_small) simp_all
  show ?thesis
  proof (cases "?own = Black")
    case True
    then have opp: "?opp = White"
      by (simp add: getOpponent_def)
    have nb: "BlackCnt b2 + (fl + 1) = count_cells Black b2"
      using own2 B B2 True by simp
    have nw: "WhiteCnt b2 - fl = count_cells White b2"
      using opp2 W W2 opp by simp
    have b': "b' = b2\<lparr>BlackCnt := count_cells Black b2, WhiteCnt := count_cells White b2,
                     CurrentPlayer := White\<rparr>"
      using mm vm fd cp2 True nb nw g1
      by (simp add: MakeMove_def flipPieces_def Let_def getOpponent_def)
    have cnt: "count_cells p b' = count_cells p b2" for p
      unfolding b' by (rule count_cells_Cells) simp
    have wf': "wf_board b'"
      using wf2 unfolding b' by (simp add: wf_board_def)
    show ?thesis
      using cnt wf' opp own2 opp2 B W True unfolding b' by simp
  next
    case False
    with cp have own: "?own = White"
      by (cases "?own") simp_all
    then have opp: "?opp = Black"
      by (simp add: getOpponent_def)
    have nw: "WhiteCnt b2 + (fl + 1) = count_cells White b2"
      using own2 W W2 own by simp
    have nb: "BlackCnt b2 - fl = count_cells Black b2"
      using opp2 B B2 opp by simp
    have b': "b' = b2\<lparr>WhiteCnt := count_cells White b2, BlackCnt := count_cells Black b2,
                     CurrentPlayer := Black\<rparr>"
      using mm vm fd cp2 own nb nw g1
      by (simp add: MakeMove_def flipPieces_def Let_def getOpponent_def)
    have cnt: "count_cells p b' = count_cells p b2" for p
      unfolding b' by (rule count_cells_Cells) simp
    have wf': "wf_board b'"
      using wf2 unfolding b' by (simp add: wf_board_def)
    show ?thesis
      using cnt wf' opp own own2 opp2 B W unfolding b' by simp
  qed
qed

text \<open>
  C2. On a board of size 8 whose current player is Black or White and whose two counters
  equal the numbers of Black and White cells, a successful \<open>MakeMove\<close> leaves counters
  that again equal the numbers of Black and White cells; their sum has grown by 1 and is
  the number of occupied cells.
\<close>

theorem C2_MakeMove_keeps_counts:
  assumes "wf_board b" and "CurrentPlayer b \<noteq> Empty"
    and "BlackCnt b = count_cells Black b" and "WhiteCnt b = count_cells White b"
    and "MakeMove b row col = (True, b')"
  shows "BlackCnt b' + WhiteCnt b' = BlackCnt b + WhiteCnt b + 1
         \<and> BlackCnt b' = count_cells Black b' \<and> WhiteCnt b' = count_cells White b'
         \<and> BlackCnt b' + WhiteCnt b' = count_occupied b'"
  using MakeMove_counts [OF assms] by (simp add: count_occupied_eq)

theorem C2_MakeMove_keeps_counts_witness:
  "fst (MakeMove NewBoard 2 3) \<and> BlackCnt (snd (MakeMove NewBoard 2 3)) = 4
   \<and> WhiteCnt (snd (MakeMove NewBoard 2 3)) = 1
   \<and> count_occupied (snd (MakeMove NewBoard 2 3)) = 5
   \<and> count_cells Black (snd (MakeMove NewBoard 2 3)) = 4"
proof -
  have 1: "CurrentPlayer NewBoard \<noteq> Empty" "BlackCnt NewBoard = count_cells Black NewBoard"
    "WhiteCnt NewBoard = count_cells White NewBoard"
    by code_simp+
  have 2: "fst (MakeMove NewBoard 2 3)" "BlackCnt (snd (MakeMove NewBoard 2 3)) = 4"
    "BlackCnt NewBoard = 2" "WhiteCnt NewBoard = 2"
    by code_simp+
  have 3: "MakeMove NewBoard 2 3 = (True, snd (MakeMove NewBoard 2 3))"
    using 2(1) by (simp add: prod_eq_iff)
  show ?thesis
    using C2_MakeMove_keeps_counts [OF wf_NewBoard 1 3] 2
    by simp
qed

section \<open>Passing\<close>

lemma updateGameState_fields:
  "Board (updateGameState g) = Board g"
  "PassCount (updateGameState g) = PassCount g"
  "History (updateGameState g) = History g"
  "GameOver (updateGameState g) \<longleftrightarrow>
     GameOver g \<or> fst (IsGameOver (Board g)) \<or> 2 \<le> PassCount g"
proof -
  obtain over b' where ov: "IsGameOver (Board g) = (over, b')"
    by (cases "IsGameOver (Board g)")
  with IsGameOver_board [of "Board g"] have b': "b' = Board g"
    by simp
  show "Board (updateGameState g) = Board g"
    "PassCount (updateGameState g) = PassCount g"
    "History (updateGameState g) = History g"
    "GameOver (updateGameState g) \<longleftrightarrow>
       GameOver g \<or> fst (IsGameOver (Board g)) \<or> 2 \<le> PassCount g"
    by (simp_all add: updateGameState_def ov b' Let_def)
qed

lemma updateGameState_Winner:
  assumes "fst (IsGameOver (Board g)) \<or> 2 \<le> PassCount g"
  shows "Winner (updateGameState g) = GetWinner (Board g)"
proof -
  obtain over b' where ov: "IsGameOver (Board g) = (over, b')"
    by (cases "IsGameOver (Board g)")
  with IsGameOver_board [of "Board g"] have b': "b' = Board g"
    by simp
  show ?thesis
    using assms by (auto simp: updateGameState_def ov b' Let_def)
qed

lemma Pass_Inr:
  assumes "Pass g = Inr g1"
  shows "\<not> GameOver g" and "\<not> HasValidMove (Board g)"
    and "Board g1 = (Board g)\<lparr>CurrentPlayer := getOpponent (Board g)\<rparr>"
    and "PassCount g1 = go_int (PassCount g + 1)"
    and "History g1 = History g @ [\<lparr>Position = (-1, -1), MovePiece = CurrentPlayer (Board g)\<rparr>]"
    and "GameOver g1 \<longleftrightarrow>
           fst (IsGameOver ((Board g)\<lparr>CurrentPlayer := getOpponent (Board g)\<rparr>))
           \<or> 2 \<le> go_int (PassCount g + 1)"
    and "2 \<le> go_int (PassCount g + 1) \<Longrightarrow>
           Winner g1 = GetWinner ((Board g)\<lparr>CurrentPlayer := getOpponent (Board g)\<rparr>)"
proof -
  let ?g3 = "g\<lparr>History := History g @ [\<lparr>Position = (-1, -1), MovePiece = CurrentPlayer (Board g)\<rparr>],
               PassCount := go_int (PassCount g + 1),
               Board := (Board g)\<lparr>CurrentPlayer := getOpponent (Board g)\<rparr>\<rparr>"
  from assms show ng: "\<not> GameOver g" and nm: "\<not> HasValidMove (Board g)"
    by (auto simp: Pass_def split: if_splits)
  with assms have g1: "g1 = updateGameState ?g3"
    by (simp add: Pass_def Let_def)
  show "Board g1 = (Board g)\<lparr>CurrentPlayer := getOpponent (Board g)\<rparr>"
    and "PassCount g1 = go_int (PassCount g + 1)"
    and "History g1 = History g @ [\<lparr>Position = (-1, -1), MovePiece = CurrentPlayer (Board g)\<rparr>]"
    and "GameOver g1 \<longleftrightarrow>
           fst (IsGameOver ((Board g)\<lparr>CurrentPlayer := getOpponent (Board g)\<rparr>))
           \<or> 2 \<le> go_int (PassCount g + 1)"
    unfolding g1 updateGameState_fields using ng by simp_all
  show "Winner g1 = GetWinner ((Board g)\<lparr>CurrentPlayer := getOpponent (Board g)\<rparr>)"
    if "2 \<le> go_int (PassCount g + 1)"
    unfolding g1 using that updateGameState_Winner [of ?g3] by simp
qed

text \<open>
  On a board whose current player is Black or White a second pass in a row never
  succeeds: if the side that got the turn can move, \<open>Pass\<close> refuses; if it cannot, neither
  side can, and the first pass has already ended the game through \<open>IsGameOver\<close>.
\<close>

lemma Pass_twice_needs_no_colour:
  assumes "CurrentPlayer (Board g) \<noteq> Empty" and "Pass g = Inr g1"
  shows "Pass g1 = Inl AlreadyOver \<or> Pass g1 = Inl CannotPass"
proof (cases "GameOver g1")
  case True
  then show ?thesis by (simp add: Pass_def)
next
  case False
  note P = Pass_Inr [OF assms(2)]
  let ?b1 = "(Board g)\<lparr>CurrentPlayer := getOpponent (Board g)\<rparr>"
  from assms(1) have swap2: "?b1\<lparr>CurrentPlayer := getOpponent ?b1\<rparr> = Board g"
    by (cases "CurrentPlayer (Board g)") (simp_all add: getOpponent_def)
  from False P(6) have "\<not> fst (IsGameOver ?b1)"
    by simp
  with P(2) swap2 have "HasValidMove ?b1"
    by (auto simp: IsGameOver_def Let_def split: if_splits)
  with False P(3) show ?thesis
    by (simp add: Pass_def)
qed



section \<open>The recorded piece, in general\<close>

lemma MakeMove_player:
  assumes wf: "wf_board b" and cp: "CurrentPlayer b \<noteq> Empty"
    and mm: "MakeMove b row col = (True, b')"
  shows "CurrentPlayer b' = getOpponent b"
proof -
  let ?b1 = "setCell b row col (CurrentPlayer b)"
  from mm have vm: "IsValidMove b row col"
    by (auto simp: MakeMove_def split: if_splits)
  obtain b2 fl where fd: "flipDirs ?b1 row col Directions 0 = (b2, fl)"
    by (cases "flipDirs ?b1 row col Directions 0")
  have "wf_board ?b1" and "CurrentPlayer ?b1 \<noteq> Empty"
    using wf cp by (simp_all add: wf_setCell)
  from flipDirs_counts [OF this Directions_nonzero fd] have "CurrentPlayer b2 = CurrentPlayer b"
    by simp
  with mm vm fd show ?thesis
    by (auto simp: MakeMove_def flipPieces_def Let_def getOpponent_def)
qed

text \<open>
  What C4 shows at the opening position holds for every placed move on a board of size 8
  with Black or White to move: the history entry carries the opponent of the side that
  placed the disc.
\<close>

lemma Game_MakeMove_records_opponent:
  assumes "wf_board (Board g)" and "CurrentPlayer (Board g) \<noteq> Empty"
    and "Game_MakeMove g row col = Inr g'"
  shows "History g' = History g @ [\<lparr>Position = (row, col), MovePiece = getOpponent (Board g)\<rparr>]"
    and "getOpponent (Board g) \<noteq> CurrentPlayer (Board g)"
proof -
  obtain ok b' where mm: "MakeMove (Board g) row col = (ok, b')"
    by (cases "MakeMove (Board g) row col")
  with assms(3) have ok: "ok"
    by (auto simp: Game_MakeMove_def split: if_splits)
  from MakeMove_player [OF assms(1,2)] mm ok have "CurrentPlayer b' = getOpponent (Board g)"
    by simp
  with assms(3) mm ok show "History g' = History g @ [\<lparr>Position = (row, col), MovePiece = getOpponent (Board g)\<rparr>]"
    by (auto simp: Game_MakeMove_def Let_def updateGameState_fields split: if_splits)
  show "getOpponent (Board g) \<noteq> CurrentPlayer (Board g)"
    by (rule opponent_facts)
qed

end
